theory Spec2Isabelle
  imports Complex_Main "HOL-Library.Multiset" "HOL-Library.Char_ord" "HOL-Library.List_Lexorder"
    "HOL-Library.Log_Nat"
begin

section \<open>Python values\<close>

text \<open>
  The exceptions the modelled code can meet. Every \<^verbatim>\<open>raise\<close> of a built-in
  is a value \<open>Inl e\<close> of the result type \<open>exn + 'a\<close>; \<open>and_then\<close> sequences two steps
  that may raise.
\<close>

datatype exn = ValueError | TypeError | OverflowError | ZeroDivisionError

definition and_then :: "exn + 'a \<Rightarrow> ('a \<Rightarrow> exn + 'b) \<Rightarrow> exn + 'b" where
  "and_then m f = (case m of Inl e \<Rightarrow> Inl e | Inr x \<Rightarrow> f x)"

subsection \<open>Binary64 floats\<close>

text \<open>
  A Python \<^verbatim>\<open>float\<close> (and a numpy \<^verbatim>\<open>float64\<close>) is an IEEE 754 binary64
  number: a finite value, given here by the rational number it denotes, one of the two
  infinities, or not-a-number. Zero is unsigned: \<^verbatim>\<open>-0.0 == 0.0\<close> in Python, and none
  of the functions modelled divides by a zero or prints a float.

  \<open>b64 x\<close> is the binary64 number nearest to the rational \<open>x\<close>, a tie going to the even
  significand: with \<open>e\<close> the binary exponent of \<open>x\<close> (not below \<open>- 1022\<close>, where the
  subnormal numbers begin), \<open>x\<close> is rounded to a multiple of \<open>2 ^ (e - 52)\<close>; a result
  of \<open>2 ^ 1024\<close> or more is an infinity. Every arithmetic operation returns \<open>b64\<close> of
  the exact result.
\<close>

datatype pyfloat = Finite rat | PInf | NInf | NaN

definition signed_inf :: "rat \<Rightarrow> pyfloat" where
  "signed_inf s = (if 0 < s then PInf else if s < 0 then NInf else NaN)"

definition rint :: "rat \<Rightarrow> int" where
  "rint x =
     (let f = \<lfloor>x\<rfloor>; d = x - of_int f
      in if d < 1 / 2 then f else if 1 / 2 < d then f + 1
         else if even f then f else f + 1)"

definition pow2 :: "int \<Rightarrow> rat" where
  "pow2 e = (if 0 \<le> e then 2 ^ nat e else 1 / 2 ^ nat (- e))"

definition ilog2 :: "rat \<Rightarrow> int" where
  "ilog2 a = (if 1 \<le> a then bitlen \<lfloor>a\<rfloor> - 1 else - bitlen (\<lceil>1 / a\<rceil> - 1))"

definition b64 :: "rat \<Rightarrow> pyfloat" where
  "b64 x =
     (if x = 0 then Finite 0
      else let e = max (ilog2 \<bar>x\<bar>) (- 1022);
               q = pow2 (e - 52);
               m = rint (\<bar>x\<bar> / q)
           in if 1023 < e \<or> (e = 1023 \<and> 2 ^ 53 \<le> m) then signed_inf x
              else Finite (sgn x * of_int m * q))"

fun fsgn :: "pyfloat \<Rightarrow> rat" where
  "fsgn (Finite a) = sgn a"
| "fsgn PInf = 1"
| "fsgn NInf = - 1"
| "fsgn NaN = 0"

fun fneg :: "pyfloat \<Rightarrow> pyfloat" where
  "fneg (Finite a) = Finite (- a)"
| "fneg PInf = NInf"
| "fneg NInf = PInf"
| "fneg NaN = NaN"

fun fadd :: "pyfloat \<Rightarrow> pyfloat \<Rightarrow> pyfloat" where
  "fadd (Finite a) (Finite b) = b64 (a + b)"
| "fadd NaN y = NaN"
| "fadd x NaN = NaN"
| "fadd PInf NInf = NaN"
| "fadd NInf PInf = NaN"
| "fadd PInf y = PInf"
| "fadd x PInf = PInf"
| "fadd NInf y = NInf"
| "fadd x NInf = NInf"

definition fsub :: "pyfloat \<Rightarrow> pyfloat \<Rightarrow> pyfloat" where
  "fsub x y = fadd x (fneg y)"

fun fmul :: "pyfloat \<Rightarrow> pyfloat \<Rightarrow> pyfloat" where
  "fmul (Finite a) (Finite b) = b64 (a * b)"
| "fmul NaN y = NaN"
| "fmul x NaN = NaN"
| "fmul x y = signed_inf (fsgn x * fsgn y)"

text \<open>
  \<open>fdiv x b\<close> is \<^verbatim>\<open>x / b\<close> for a float \<open>x\<close> and a finite float of value
  \<open>b \<noteq> 0\<close>.
\<close>

definition fdiv :: "pyfloat \<Rightarrow> rat \<Rightarrow> pyfloat" where
  "fdiv x b =
     (case x of
        Finite a \<Rightarrow> b64 (a / b)
      | NaN \<Rightarrow> NaN
      | _ \<Rightarrow> signed_inf (fsgn x * b))"

text \<open>
  \<^verbatim>\<open>float(n)\<close> for an integer, which is also how Python converts the integer
  operand of a mixed operation: the nearest float, and \<^verbatim>\<open>OverflowError\<close> when that
  is not finite. \<open>py_truediv x n\<close> is \<^verbatim>\<open>x / n\<close> for a float \<open>x\<close> and an integer
  \<open>n\<close>: Python raises \<^verbatim>\<open>ZeroDivisionError\<close> on a zero divisor.
\<close>

definition float_of_int :: "int \<Rightarrow> exn + rat" where
  "float_of_int n = (case b64 (of_int n) of Finite b \<Rightarrow> Inr b | _ \<Rightarrow> Inl OverflowError)"

definition py_truediv :: "pyfloat \<Rightarrow> int \<Rightarrow> exn + pyfloat" where
  "py_truediv x n =
     (if n = 0 then Inl ZeroDivisionError
      else and_then (float_of_int n) (\<lambda>b. Inr (fdiv x b)))"

text \<open>Truth value of a float: only zero is falsy (not-a-number is truthy).\<close>

definition float_truthy :: "pyfloat \<Rightarrow> bool" where
  "float_truthy x \<longleftrightarrow> x \<noteq> Finite 0"

subsection \<open>Rounding\<close>

text \<open>
  \<open>rint\<close> above is the nearest integer, a tie going to the even neighbour; \<open>np_rint\<close>
  is numpy's \<^verbatim>\<open>rint\<close> on a float. \<^verbatim>\<open>Series.round(d)\<close> is numpy's
  \<^verbatim>\<open>round\<close>: multiply by \<open>10 ^ d\<close>, \<open>rint\<close>, divide by \<open>10 ^ d\<close>, each step a
  binary64 operation (\<open>10 ^ d\<close> is a binary64 number for \<open>d \<le> 22\<close>).

  The built-in \<^verbatim>\<open>round(x, d)\<close> of Python rounds the exact value of the float \<open>x\<close>
  to the nearest multiple of \<open>10 ^ - d\<close>, a tie going to the even multiple, and returns
  the float nearest to that decimal; it raises \<^verbatim>\<open>OverflowError\<close> when that float is
  not finite. Both leave the infinities and not-a-number as they are.

  \<open>round_half_up\<close> is the rounding in which a tie goes away from zero; the source never
  calls it, it is here to be compared with.
\<close>

definition np_rint :: "pyfloat \<Rightarrow> pyfloat" where
  "np_rint x = (case x of Finite a \<Rightarrow> Finite (of_int (rint a)) | _ \<Rightarrow> x)"

definition np_round :: "nat \<Rightarrow> pyfloat \<Rightarrow> pyfloat" where
  "np_round d x = fdiv (np_rint (fmul x (Finite (10 ^ d)))) (10 ^ d)"

definition py_round :: "nat \<Rightarrow> pyfloat \<Rightarrow> exn + pyfloat" where
  "py_round d x =
     (case x of
        Finite a \<Rightarrow>
          (case b64 (of_int (rint (a * 10 ^ d)) / 10 ^ d) of
             Finite r \<Rightarrow> Inr (Finite r)
           | _ \<Rightarrow> Inl OverflowError)
      | _ \<Rightarrow> Inr x)"



section \<open>The consolidation engine: \<^verbatim>\<open>scripts/calc_finais.py\<close>\<close>

text \<open>
  A normalized line item, as the supplier parser emits it (a dict with these five keys).
  \<open>product\<close> is a string: the parser skips a line whose product is null. \<open>stems\<close> is
  a Python integer, unbounded.
\<close>

record line_item =
  product :: string
  stems :: int
  rate_usd :: pyfloat
  value_usd :: pyfloat
  source_file :: string

text \<open>
  A row of the grouped frame \<^verbatim>\<open>g\<close> (columns \<^verbatim>\<open>Produto\<close>,
  \<^verbatim>\<open>total_stems\<close>, \<^verbatim>\<open>subtotal_usd\<close>) and a row of the returned frame
  (the seven \<^verbatim>\<open>COLUMNS\<close>, in their order).
\<close>

record group_row =
  g_produto :: string
  total_stems :: int
  subtotal_usd :: pyfloat

record final_row =
  produto :: string
  num_hastes :: int
  subtotal_invoice :: pyfloat
  cotacao_dolar :: pyfloat
  preco :: pyfloat
  custos_operacao :: pyfloat
  total :: pyfloat

subsection \<open>The column of stem counts\<close>

text \<open>
  \<^verbatim>\<open>pd.DataFrame(items)\<close> infers the dtype of the column \<^verbatim>\<open>stems\<close> from its
  Python integers: \<^verbatim>\<open>int64\<close> when all of them fit it; \<^verbatim>\<open>uint64\<close> when
  none is negative and all fit that; a column of Python objects otherwise. The group sum
  wraps around in the two machine dtypes and is exact on objects.
\<close>

datatype dtype = Int64 | UInt64 | Float64 | Object

definition in_int64 :: "int \<Rightarrow> bool" where
  "in_int64 n \<longleftrightarrow> - (2 ^ 63) \<le> n \<and> n < 2 ^ 63"

definition in_uint64 :: "int \<Rightarrow> bool" where
  "in_uint64 n \<longleftrightarrow> 0 \<le> n \<and> n < 2 ^ 64"

definition infer_dtype :: "int list \<Rightarrow> dtype" where
  "infer_dtype ns =
     (if list_all in_int64 ns then Int64 else if list_all in_uint64 ns then UInt64 else Object)"

definition wrap64 :: "int \<Rightarrow> int" where
  "wrap64 n = (n + 2 ^ 63) mod 2 ^ 64 - 2 ^ 63"

definition stems_sum :: "dtype \<Rightarrow> int list \<Rightarrow> int" where
  "stems_sum d ns =
     (case d of
        Int64 \<Rightarrow> wrap64 (sum_list ns)
      | UInt64 \<Rightarrow> sum_list ns mod 2 ^ 64
      | _ \<Rightarrow> sum_list ns)"

subsection \<open>Grouping\<close>

text \<open>
  The group sum of a float column (pandas' \<^verbatim>\<open>group_sum\<close>) leaves the
  not-a-number entries out and adds the others in row order by Kahan's compensated
  summation: \<open>kahan_step\<close> is one pass of its loop on the pair of the running sum and
  the compensation, which is reset to zero when it comes out as not-a-number.
\<close>

definition kahan_step :: "pyfloat \<times> pyfloat \<Rightarrow> pyfloat \<Rightarrow> pyfloat \<times> pyfloat" where
  "kahan_step sc v =
     (let y = fsub v (snd sc);
          t = fadd (fst sc) y;
          c = fsub (fsub t (fst sc)) y
      in (t, if c = NaN then Finite 0 else c))"

definition kahan_sum :: "pyfloat list \<Rightarrow> pyfloat" where
  "kahan_sum xs = fst (foldl kahan_step (Finite 0, Finite 0) (filter (\<lambda>x. x \<noteq> NaN) xs))"

text \<open>
  \<^verbatim>\<open>df_items.groupby("product", dropna=False).agg(...)\<close>: one row for each
  distinct product, the products in ascending order (\<^verbatim>\<open>groupby\<close> sorts its keys;
  Python compares strings code point by code point).
\<close>

definition groupby_sum :: "line_item list \<Rightarrow> group_row list" where
  "groupby_sum items =
     map (\<lambda>p. \<lparr>g_produto = p,
               total_stems = stems_sum (infer_dtype (map stems items))
                               (map stems (filter (\<lambda>i. product i = p) items)),
               subtotal_usd = kahan_sum (map value_usd (filter (\<lambda>i. product i = p) items))\<rparr>)
         (sort (remdups (map product items)))"

text \<open>
  \<^verbatim>\<open>missing = [p for p in produtos if p not in have]\<close>, and the frame with the
  missing products appended.
\<close>

definition missing :: "group_row list \<Rightarrow> string list \<Rightarrow> string list" where
  "missing g produtos = filter (\<lambda>p. p \<notin> set (map g_produto g)) produtos"

definition with_missing :: "group_row list \<Rightarrow> string list \<Rightarrow> group_row list" where
  "with_missing g produtos =
     g @ map (\<lambda>p. \<lparr>g_produto = p, total_stems = 0, subtotal_usd = Finite 0\<rparr>) (missing g produtos)"

text \<open>
  The appended rows hold their zero stem count in an \<^verbatim>\<open>int64\<close> column. Appended
  to a \<^verbatim>\<open>uint64\<close> column they make the result a \<^verbatim>\<open>float64\<close> column (the
  common dtype numpy finds for the two); the other dtypes stay as they are. \<open>stems_dtype\<close>
  is the dtype of \<^verbatim>\<open>g["total_stems"]\<close> at line 53.
\<close>

definition stems_dtype :: "line_item list \<Rightarrow> string list \<Rightarrow> dtype" where
  "stems_dtype items produtos =
     (let d = infer_dtype (map stems items)
      in if d = UInt64 \<and> missing (groupby_sum items) produtos \<noteq> [] then Float64 else d)"

text \<open>
  \<^verbatim>\<open>g["total_stems"].astype(int)\<close> on a value \<open>v\<close> of the column. From
  \<^verbatim>\<open>uint64\<close> the conversion wraps around. From \<^verbatim>\<open>float64\<close> (a
  \<^verbatim>\<open>uint64\<close> value converted to the nearest float) it is the C conversion, which on
  x86-64 gives the least \<^verbatim>\<open>int64\<close> for a value beyond the range. From a Python
  object it raises \<^verbatim>\<open>OverflowError\<close> for an integer beyond the range.
\<close>

definition astype_int :: "dtype \<Rightarrow> int \<Rightarrow> exn + int" where
  "astype_int d v =
     (case d of
        Int64 \<Rightarrow> Inr v
      | UInt64 \<Rightarrow> Inr (wrap64 v)
      | Float64 \<Rightarrow>
          (case b64 (of_int v) of
             Finite f \<Rightarrow> Inr (if in_int64 \<lfloor>f\<rfloor> then \<lfloor>f\<rfloor> else - (2 ^ 63))
           | _ \<Rightarrow> Inr (- (2 ^ 63)))
      | Object \<Rightarrow> if in_int64 v then Inr v else Inl OverflowError)"

subsection \<open>Ordering\<close>

text \<open>
  \<^verbatim>\<open>order = {p:i for i,p in enumerate(produtos)}\<close>: a later occurrence of a name
  overwrites an earlier one. \<open>ord_key\<close> is the column \<^verbatim>\<open>__ord\<close>:
  \<^verbatim>\<open>g["Produto"].map(order).fillna(1_000_000).astype(int)\<close>.
\<close>

definition order :: "string list \<Rightarrow> (string \<rightharpoonup> nat)" where
  "order produtos = fold (\<lambda>(i, p) m. m(p \<mapsto> i)) (enumerate 0 produtos) Map.empty"

definition ord_key :: "string list \<Rightarrow> string \<Rightarrow> int" where
  "ord_key produtos p = (case order produtos p of Some i \<Rightarrow> int i | None \<Rightarrow> 1000000)"

text \<open>
  \<^verbatim>\<open>g.sort_values("__ord")\<close> is pandas' sort with its default
  \<^verbatim>\<open>kind="quicksort"\<close>, which sorts by the key and is not stable: which of two rows
  with equal keys comes first depends on the sorting routine numpy selects for the
  machine. The sort is therefore a parameter \<open>sort_values\<close> of the model, and
  \<open>sorts_by_key\<close> is what is known of it: the result is a permutation of the rows in
  ascending order of the key.
\<close>

type_synonym sorter = "(group_row \<Rightarrow> int) \<Rightarrow> group_row list \<Rightarrow> group_row list"

definition sorts_by_key :: "sorter \<Rightarrow> bool" where
  "sorts_by_key sort_values \<longleftrightarrow>
     (\<forall>k xs. mset (sort_values k xs) = mset xs \<and> sorted (map k (sort_values k xs)))"

subsection \<open>The final columns\<close>

text \<open>
  \<^verbatim>\<open>cot = float(cotacao or 0.0)\<close>, \<^verbatim>\<open>ops = ops_costs_map or {}\<close> and
  \<^verbatim>\<open>float(ops.get(prod, 0.0) or 0.0)\<close>.
\<close>

definition cot_of :: "pyfloat \<Rightarrow> pyfloat" where
  "cot_of cotacao = (if float_truthy cotacao then cotacao else Finite 0)"

definition ops_of :: "(string \<rightharpoonup> pyfloat) option \<Rightarrow> (string \<rightharpoonup> pyfloat)" where
  "ops_of ops_costs_map = (case ops_costs_map of None \<Rightarrow> Map.empty | Some m \<Rightarrow> m)"

definition ops_cost :: "(string \<rightharpoonup> pyfloat) \<Rightarrow> string \<Rightarrow> pyfloat" where
  "ops_cost ops prd =
     (let v = (case ops prd of None \<Rightarrow> Finite 0 | Some c \<Rightarrow> c)
      in if float_truthy v then v else Finite 0)"

text \<open>
  The column \<^verbatim>\<open>Total\<close>:
  \<^verbatim>\<open>round(((preco + opsc) / stems), 4) if stems and stems > 0 else 0.0\<close>, on
  Python floats and a Python integer (iterating a Series yields Python scalars).
\<close>

definition total_of :: "pyfloat \<Rightarrow> pyfloat \<Rightarrow> int \<Rightarrow> exn + pyfloat" where
  "total_of p opsc n =
     (if n \<noteq> 0 \<and> 0 < n
      then and_then (py_truediv (fadd p opsc) n) (py_round 4)
      else Inr (Finite 0))"

text \<open>
  One row of the returned frame, from a row \<open>r\<close> of the sorted frame and its stem count
  \<open>n\<close> as \<^verbatim>\<open>astype(int)\<close> gave it (lines 51 to 62).
\<close>

definition out_row ::
  "pyfloat \<Rightarrow> (string \<rightharpoonup> pyfloat) \<Rightarrow> group_row \<Rightarrow> int \<Rightarrow> exn + final_row" where
  "out_row ct ops r n =
     (let sub = np_round 2 (subtotal_usd r);
          p = np_round 2 (fmul sub ct);
          opsc = ops_cost ops (g_produto r)
      in and_then (total_of p opsc n) (\<lambda>t.
           Inr \<lparr>produto = g_produto r, num_hastes = n, subtotal_invoice = sub,
                cotacao_dolar = ct, preco = p, custos_operacao = opsc, total = t\<rparr>))"

text \<open>Building a list stops at the first element that raises.\<close>

fun collect :: "(exn + 'a) list \<Rightarrow> exn + 'a list" where
  "collect [] = Inr []"
| "collect (x # xs) = and_then x (\<lambda>v. and_then (collect xs) (\<lambda>vs. Inr (v # vs)))"

text \<open>
  \<^verbatim>\<open>finalize_table\<close> (lines 16 to 64): group, append the missing products, sort by
  the ordering key, convert the stem counts, compute the final columns.
\<close>

definition finalize_table ::
  "sorter \<Rightarrow> line_item list \<Rightarrow> pyfloat \<Rightarrow> string list \<Rightarrow> (string \<rightharpoonup> pyfloat) option
     \<Rightarrow> exn + final_row list" where
  "finalize_table sort_values items cotacao produtos ops_costs_map =
     (let g = with_missing (groupby_sum items) produtos;
          g = sort_values (\<lambda>r. ord_key produtos (g_produto r)) g;
          ct = cot_of cotacao;
          ops = ops_of ops_costs_map
      in and_then (collect (map (\<lambda>r. astype_int (stems_dtype items produtos) (total_stems r)) g))
           (\<lambda>ns. collect (map (\<lambda>(r, n). out_row ct ops r n) (zip g ns))))"

subsection \<open>The worked example of the specification\<close>

text \<open>
  One item of product \<open>A\<close> with 100 stems worth 50.00, the catalog \<open>[A, B]\<close>, the
  rate 5.0, and the two rows the specification gives for it.
\<close>

definition item_A :: "pyfloat \<Rightarrow> string \<Rightarrow> line_item" where
  "item_A r f = \<lparr>product = ''A'', stems = 100, rate_usd = r, value_usd = Finite 50,
                 source_file = f\<rparr>"

definition row_A :: final_row where
  "row_A = \<lparr>produto = ''A'', num_hastes = 100, subtotal_invoice = Finite 50,
             cotacao_dolar = Finite 5, preco = Finite 250, custos_operacao = Finite 0,
             total = Finite (5 / 2)\<rparr>"

definition row_B :: final_row where
  "row_B = \<lparr>produto = ''B'', num_hastes = 0, subtotal_invoice = Finite 0,
             cotacao_dolar = Finite 5, preco = Finite 0, custos_operacao = Finite 0,
             total = Finite 0\<rparr>"

subsection \<open>Products outside the catalog\<close>

text \<open>
  An item of a product \<open>p\<close> (10 stems worth 10.00) and the row it yields at the rate 5.0;
  and a catalog of 1,000,002 distinct names, \<open>p\<close>, \<open>pp\<close>, \<open>ppp\<close> and so on, one more
  than the sentinel 1,000,000 of the ordering key has room for.
\<close>

definition stray_item :: "string \<Rightarrow> line_item" where
  "stray_item p = \<lparr>product = p, stems = 10, rate_usd = Finite 1, value_usd = Finite 10,
                    source_file = ''invoice.json''\<rparr>"

definition stray_row :: "string \<Rightarrow> final_row" where
  "stray_row p = \<lparr>produto = p, num_hastes = 10, subtotal_invoice = Finite 10,
                   cotacao_dolar = Finite 5, preco = Finite 50, custos_operacao = Finite 0,
                   total = Finite 5\<rparr>"

definition catalog_name :: "nat \<Rightarrow> string" where
  "catalog_name i = replicate (Suc i) CHR ''p''"

definition big_catalog :: "string list" where
  "big_catalog = map catalog_name [0..<1000002]"

text \<open>
  A sort by key that is not stable: it returns rows with equal keys in the reverse of
  their order in the frame.
\<close>

definition unstable :: sorter where
  "unstable k xs = rev (sort_key (\<lambda>x. - k x) xs)"

subsection \<open>Rounding to the nearest, ties to even\<close>

text \<open>
  \<open>nearest_even t k\<close>: the integer \<open>k\<close> is nearest to \<open>t\<close>, and is even when \<open>t\<close>
  lies half-way between two integers.

  \<open>np_rounded d x y\<close>: \<open>y\<close> is \<open>x\<close> rounded once to \<open>d\<close> decimal places the way
  \<^verbatim>\<open>Series.round\<close> does it: the float product of \<open>x\<close> and \<open>10 ^ d\<close> is taken to
  the nearest integer \<open>k\<close>, ties to even, and \<open>y\<close> is the float quotient of \<open>k\<close> by
  \<open>10 ^ d\<close>. \<open>py_rounded d x y\<close>: the same the way the built-in \<^verbatim>\<open>round\<close> does
  it, where the exact value of \<open>x\<close> times \<open>10 ^ d\<close> is taken to the nearest integer.
  An infinity or not-a-number is left as it is.
\<close>

definition nearest_even :: "rat \<Rightarrow> int \<Rightarrow> bool" where
  "nearest_even t k \<longleftrightarrow> \<bar>t - of_int k\<bar> \<le> 1 / 2 \<and> (\<bar>t - of_int k\<bar> = 1 / 2 \<longrightarrow> even k)"

definition np_rounded :: "nat \<Rightarrow> pyfloat \<Rightarrow> pyfloat \<Rightarrow> bool" where
  "np_rounded d x y =
     (case fmul x (Finite (10 ^ d)) of
        Finite t \<Rightarrow> (\<exists>k \<in> {\<lfloor>t\<rfloor>, \<lfloor>t\<rfloor> + 1}. nearest_even t k \<and> y = b64 (of_int k / 10 ^ d))
      | z \<Rightarrow> y = z)"






section \<open>Properties of the consolidation engine\<close>

subsection \<open>Auxiliary facts\<close>

lemma and_then_Inr: "and_then m f = Inr y \<longleftrightarrow> (\<exists>x. m = Inr x \<and> f x = Inr y)"
  by (cases m) (simp_all add: and_then_def)

lemma and_then_Inl: "and_then m f = Inl e \<longleftrightarrow> m = Inl e \<or> (\<exists>x. m = Inr x \<and> f x = Inl e)"
  by (cases m) (simp_all add: and_then_def)

lemma collect_Inr: "collect xs = Inr ys \<longleftrightarrow> xs = map Inr ys"
proof (induction xs arbitrary: ys)
  case Nil
  then show ?case by auto
next
  case (Cons x xs)
  show ?case
  proof (cases x)
    case (Inl e)
    then show ?thesis by (cases ys) (simp_all add: and_then_def)
  next
    case (Inr v)
    have "collect (x # xs) = Inr ys \<longleftrightarrow> (\<exists>vs. collect xs = Inr vs \<and> ys = v # vs)"
      using Inr by (auto simp: and_then_Inr)
    also have "\<dots> \<longleftrightarrow> (\<exists>vs. xs = map Inr vs \<and> ys = v # vs)" using Cons.IH by simp
    also have "\<dots> \<longleftrightarrow> x # xs = map Inr ys" using Inr by (cases ys) auto
    finally show ?thesis .
  qed
qed

lemma collect_Inl: "collect xs = Inl e \<Longrightarrow> Inl e \<in> set xs"
proof (induction xs)
  case Nil
  then show ?case by simp
next
  case (Cons x xs)
  then show ?case by (cases x; cases "collect xs") (simp_all add: and_then_def)
qed

lemma out_row_Inr:
  "out_row ct ops r n = Inr fr \<longleftrightarrow>
     total_of (np_round 2 (fmul (np_round 2 (subtotal_usd r)) ct)) (ops_cost ops (g_produto r)) n
       = Inr (total fr) \<and>
     produto fr = g_produto r \<and> num_hastes fr = n \<and>
     subtotal_invoice fr = np_round 2 (subtotal_usd r) \<and> cotacao_dolar fr = ct \<and>
     preco fr = np_round 2 (fmul (np_round 2 (subtotal_usd r)) ct) \<and>
     custos_operacao fr = ops_cost ops (g_produto r)"
  by (cases fr) (auto simp: out_row_def Let_def and_then_Inr)

lemma finalize_table_Inr:
  assumes "finalize_table srt items c produtos ops = Inr out"
  shows "list_all2 (\<lambda>r fr. astype_int (stems_dtype items produtos) (total_stems r) = Inr (num_hastes fr)
                         \<and> out_row (cot_of c) (ops_of ops) r (num_hastes fr) = Inr fr)
           (srt (\<lambda>r. ord_key produtos (g_produto r)) (with_missing (groupby_sum items) produtos))
           out"
proof -
  let ?g = "srt (\<lambda>r. ord_key produtos (g_produto r)) (with_missing (groupby_sum items) produtos)"
  let ?d = "stems_dtype items produtos"
  from assms obtain ns where
    ns: "collect (map (\<lambda>r. astype_int ?d (total_stems r)) ?g) = Inr ns" and
    rows: "collect (map (\<lambda>(r, n). out_row (cot_of c) (ops_of ops) r n) (zip ?g ns)) = Inr out"
    by (auto simp: finalize_table_def Let_def and_then_Inr)
  from ns have m: "map (\<lambda>r. astype_int ?d (total_stems r)) ?g = map Inr ns"
    by (simp add: collect_Inr)
  then have l: "length ns = length ?g" by (metis length_map)
  from rows have 
    fr: "map (\<lambda>(r, n). out_row (cot_of c) (ops_of ops) r n) (zip ?g ns) = map Inr out"
    by (simp add: collect_Inr)
  then have lo: "length out = length ?g" using l by (metis length_map length_zip min.idem)
  show ?thesis
  proof (rule list_all2_all_nthI)
    show "length ?g = length out" using lo by simp
  next
    fix i assume i: "i < length ?g"
    from m i l have a: "astype_int ?d (total_stems (?g ! i)) = Inr (ns ! i)"
      by (metis nth_map)
    from fr i l lo have "out_row (cot_of c) (ops_of ops) (?g ! i) (ns ! i) = Inr (out ! i)"
      using nth_map[of i "zip ?g ns" "\<lambda>(r, n). out_row (cot_of c) (ops_of ops) r n"]
        nth_map[of i out Inr] by simp
    moreover from this have "num_hastes (out ! i) = ns ! i" by (simp add: out_row_Inr)
    ultimately show "astype_int ?d (total_stems (?g ! i)) = Inr (num_hastes (out ! i)) \<and>
        out_row (cot_of c) (ops_of ops) (?g ! i) (num_hastes (out ! i)) = Inr (out ! i)"
      using a by simp
  qed
qed

lemma sorts_by_key_sort_key: "sorts_by_key sort_key"
  by (simp add: sorts_by_key_def)

lemma sorts_by_key_mset: "sorts_by_key srt \<Longrightarrow> mset (srt k xs) = mset xs"
  by (simp add: sorts_by_key_def)

lemma sorts_by_key_set: "sorts_by_key srt \<Longrightarrow> set (srt k xs) = set xs"
  by (metis sorts_by_key_mset set_mset_mset)

lemma sorts_by_key_sorted: "sorts_by_key srt \<Longrightarrow> sorted (map k (srt k xs))"
  by (simp add: sorts_by_key_def)

lemma sorts_by_key_id:
  assumes "sorts_by_key srt" "sorted (map k xs)" "distinct (map k xs)"
  shows "srt k xs = xs"
proof -
  let ?ys = "srt k xs"
  have m: "mset ?ys = mset xs" using assms(1) by (rule sorts_by_key_mset)
  have "mset (map k ?ys) = mset (map k xs)" using m by simp
  moreover have "sorted (map k ?ys)" using assms(1) by (rule sorts_by_key_sorted)
  ultimately have e: "map k ?ys = map k xs"
    using assms(2) by (metis properties_for_sort sorted_sort_id)
  have "inj_on k (set xs)" using assms(3) by (simp add: distinct_map)
  moreover have "set ?ys = set xs" using m by (metis set_mset_mset)
  ultimately show ?thesis using e by (metis inj_on_map_eq_map sup.idem inj_on_Un)
qed

lemma order_snoc: "order (xs @ [x]) = (order xs)(x \<mapsto> length xs)"
  by (simp add: order_def enumerate_append_eq)

lemma order_Nil [simp]: "order [] = Map.empty"
  by (simp add: order_def)

lemma order_None: "order produtos p = None \<longleftrightarrow> p \<notin> set produtos"
  by (induction produtos rule: rev_induct) (auto simp: order_snoc)

lemma order_Some: "order produtos p = Some i \<Longrightarrow> i < length produtos \<and> produtos ! i = p"
  by (induction produtos rule: rev_induct)
     (auto simp: order_snoc nth_append split: if_splits)

lemma order_distinct: "distinct produtos \<Longrightarrow> i < length produtos \<Longrightarrow> order produtos (produtos ! i) = Some i"
proof (induction produtos rule: rev_induct)
  case Nil
  then show ?case by simp
next
  case (snoc x xs)
  then show ?case
    by (auto simp: order_snoc nth_append less_Suc_eq)
qed

lemma ord_key_in: "p \<in> set produtos \<Longrightarrow> 0 \<le> ord_key produtos p \<and> ord_key produtos p < int (length produtos)"
  using order_None[of produtos p] order_Some[of produtos p]
  by (auto simp: ord_key_def split: option.splits)

lemma ord_key_notin: "p \<notin> set produtos \<Longrightarrow> ord_key produtos p = 1000000"
  by (simp add: ord_key_def order_None[THEN iffD2])

lemma ord_key_nth: "distinct produtos \<Longrightarrow> i < length produtos \<Longrightarrow> ord_key produtos (produtos ! i) = int i"
  by (simp add: ord_key_def order_distinct)

lemma g_produto_groupby: "map g_produto (groupby_sum items) = sort (remdups (map product items))"
  by (simp add: groupby_sum_def comp_def)

lemma set_g_produto_groupby: "set (map g_produto (groupby_sum items)) = product ` set items"
  unfolding g_produto_groupby by simp

lemma g_produto_with_missing:
  "map g_produto (with_missing g produtos) = map g_produto g @ missing g produtos"
  by (simp add: with_missing_def comp_def)

lemma distinct_with_missing:
  "distinct produtos \<Longrightarrow> distinct (map g_produto (with_missing (groupby_sum items) produtos))"
  by (auto simp: g_produto_with_missing g_produto_groupby missing_def)

lemma set_with_missing:
  "set (map g_produto (with_missing (groupby_sum items) produtos)) = product ` set items \<union> set produtos"
  unfolding g_produto_with_missing set_append set_g_produto_groupby
  by (auto simp: missing_def g_produto_groupby)

lemma rint_0 [simp]: "rint 0 = 0"
  by (simp add: rint_def)

lemma b64_0 [simp]: "b64 0 = Finite 0"
  by (simp add: b64_def)

lemma np_round_0 [simp]: "np_round d (Finite 0) = Finite 0"
  by (simp add: np_round_def np_rint_def fdiv_def)

lemma fmul_0 [simp]: "fmul (Finite 0) (Finite c) = Finite 0"
  by simp

lemma astype_int_0 [simp]: "astype_int d 0 = Inr 0"
  by (cases d) (simp_all add: astype_int_def wrap64_def in_int64_def)

lemma with_missing_cases:
  assumes "r \<in> set (with_missing (groupby_sum items) produtos)"
  shows "g_produto r \<in> product ` set items \<or> (total_stems r = 0 \<and> subtotal_usd r = Finite 0)"
proof -
  from assms have "r \<in> set (groupby_sum items) \<or>
      r \<in> set (map (\<lambda>p. \<lparr>g_produto = p, total_stems = 0, subtotal_usd = Finite 0\<rparr>)
                 (missing (groupby_sum items) produtos))"
    by (simp add: with_missing_def)
  then show ?thesis
  proof
    assume "r \<in> set (groupby_sum items)"
    then have "g_produto r \<in> set (map g_produto (groupby_sum items))" by simp
    then show ?thesis unfolding set_g_produto_groupby by simp
  next
    assume "r \<in> set (map (\<lambda>p. \<lparr>g_produto = p, total_stems = 0, subtotal_usd = Finite 0\<rparr>)
                 (missing (groupby_sum items) produtos))"
    then show ?thesis by auto
  qed
qed

lemma length_filter_distinct:
  "distinct (map f xs) \<Longrightarrow> p \<in> f ` set xs \<Longrightarrow> length (filter (\<lambda>r. f r = p) xs) = 1"
proof (induction xs)
  case Nil
  then show ?case by simp
next
  case (Cons x xs)
  show ?case
  proof (cases "f x = p")
    case True
    with Cons.prems(1) have "filter (\<lambda>r. f r = p) xs = []"
      by (force simp: filter_empty_conv image_iff)
    with True show ?thesis by simp
  next
    case False
    with Cons show ?thesis by auto
  qed
qed

lemma produto_out_list:
  assumes "finalize_table srt items c produtos ops = Inr out"
  shows "map produto out =
         map g_produto (srt (\<lambda>r. ord_key produtos (g_produto r))
                          (with_missing (groupby_sum items) produtos))"
proof -
  from finalize_table_Inr[OF assms]
  have "list_all2 (\<lambda>r fr. produto fr = g_produto r)
          (srt (\<lambda>r. ord_key produtos (g_produto r)) (with_missing (groupby_sum items) produtos)) out"
    by (rule list_all2_mono) (simp add: out_row_Inr)
  then show ?thesis
    by (simp add: list_all2_conv_all_nth list_eq_iff_nth_eq)
qed

lemma produto_out:
  assumes "sorts_by_key srt" "finalize_table srt items c produtos ops = Inr out"
  shows "mset (map produto out) = mset (map g_produto (with_missing (groupby_sum items) produtos))"
proof -
  let ?g = "with_missing (groupby_sum items) produtos"
  let ?k = "\<lambda>r. ord_key produtos (g_produto r)"
  have "map produto out = map g_produto (srt ?k ?g)" using assms(2) by (rule produto_out_list)
  then have "mset (map produto out) = image_mset g_produto (mset (srt ?k ?g))" by simp
  also have "\<dots> = image_mset g_produto (mset ?g)"
    using sorts_by_key_mset[OF assms(1)] by simp
  finally show ?thesis by simp
qed

text \<open>
  Every returned row comes from a row of the frame with the missing products appended.
\<close>

lemma out_row_source:
  assumes srt: "sorts_by_key srt"
      and out: "finalize_table srt items c produtos ops = Inr out"
      and fr: "fr \<in> set out"
  shows "\<exists>r \<in> set (with_missing (groupby_sum items) produtos).
           astype_int (stems_dtype items produtos) (total_stems r) = Inr (num_hastes fr) \<and>
           out_row (cot_of c) (ops_of ops) r (num_hastes fr) = Inr fr"
proof -
  let ?g = "srt (\<lambda>r. ord_key produtos (g_produto r)) (with_missing (groupby_sum items) produtos)"
  from fr obtain i where i: "i < length out" "out ! i = fr" by (auto simp: in_set_conv_nth)
  from finalize_table_Inr[OF out] i
  have "i < length ?g" and
    "astype_int (stems_dtype items produtos) (total_stems (?g ! i)) = Inr (num_hastes fr) \<and>
     out_row (cot_of c) (ops_of ops) (?g ! i) (num_hastes fr) = Inr fr"
    by (auto simp: list_all2_conv_all_nth)
  moreover from this have "?g ! i \<in> set (with_missing (groupby_sum items) produtos)"
    using sorts_by_key_set[OF srt] nth_mem by blast
  ultimately show ?thesis by blast
qed

subsection \<open>Catalog coverage\<close>

text \<open>
  Claim C2. For every item list, exchange rate and cost-override map, and every catalog
  without duplicate names, the returned table has exactly one row for each product of the
  catalog, and when no item carries the product that row has \<^verbatim>\<open>total_stems = 0\<close>
  and \<^verbatim>\<open>subtotal_source_currency = 0.0\<close>.
\<close>

theorem catalog_coverage:
  assumes srt: "sorts_by_key sort_values"
      and dist: "distinct produtos"
      and out: "finalize_table sort_values items cotacao produtos ops_costs_map = Inr out"
      and p: "p \<in> set produtos"
  shows "length (filter (\<lambda>r. produto r = p) out) = 1 \<and>
         (p \<notin> product ` set items \<longrightarrow>
            (\<forall>r \<in> set out. produto r = p \<longrightarrow> num_hastes r = 0 \<and> subtotal_invoice r = Finite 0))"
proof
  let ?g = "with_missing (groupby_sum items) produtos"
  have m: "mset (map produto out) = mset (map g_produto ?g)"
    using srt out by (rule produto_out)
  have "distinct (map g_produto ?g)" using dist by (rule distinct_with_missing)
  then have d: "distinct (map produto out)" using m by (metis mset_eq_imp_distinct_iff)
  have "set (map produto out) = set (map g_produto ?g)" using m by (metis set_mset_mset)
  then have "p \<in> produto ` set out" using p unfolding set_with_missing by simp
  with d show "length (filter (\<lambda>r. produto r = p) out) = 1" by (rule length_filter_distinct)
next
  show "p \<notin> product ` set items \<longrightarrow>
        (\<forall>r \<in> set out. produto r = p \<longrightarrow> num_hastes r = 0 \<and> subtotal_invoice r = Finite 0)"
  proof (intro impI ballI)
    fix r assume np: "p \<notin> product ` set items" and r: "r \<in> set out" and rp: "produto r = p"
    from out_row_source[OF srt out r] obtain gr
      where gr: "gr \<in> set (with_missing (groupby_sum items) produtos)"
        and n: "astype_int (stems_dtype items produtos) (total_stems gr) = Inr (num_hastes r)"
        and rg: "out_row (cot_of cotacao) (ops_of ops_costs_map) gr (num_hastes r) = Inr r"
      by blast
    from rg have pr: "produto r = g_produto gr"
      and sr: "subtotal_invoice r = np_round 2 (subtotal_usd gr)"
      by (simp_all add: out_row_Inr)
    from with_missing_cases[OF gr] np rp pr
    have z: "total_stems gr = 0 \<and> subtotal_usd gr = Finite 0" by auto
    with n sr show "num_hastes r = 0 \<and> subtotal_invoice r = Finite 0" by simp
  qed
qed

subsection \<open>The worked example\<close>

lemma example_groups:
  "with_missing (groupby_sum [item_A r f]) [''A'', ''B''] =
     [\<lparr>g_produto = ''A'', total_stems = 100, subtotal_usd = Finite 50\<rparr>,
      \<lparr>g_produto = ''B'', total_stems = 0, subtotal_usd = Finite 0\<rparr>]"
proof -
  have k: "kahan_sum [Finite 50] = Finite 50" by code_simp
  have s: "stems_sum (infer_dtype [100]) [100] = 100" by code_simp
  show ?thesis
    by (simp add: with_missing_def groupby_sum_def missing_def item_A_def k s)
qed

lemma example_dtype: "stems_dtype [item_A r f] [''A'', ''B''] = Int64"
  by (simp add: stems_dtype_def item_A_def infer_dtype_def in_int64_def)

lemma example_keys:
  "ord_key [''A'', ''B''] ''A'' = 0" "ord_key [''A'', ''B''] ''B'' = 1"
  using ord_key_nth[of "[''A'', ''B'']" 0] ord_key_nth[of "[''A'', ''B'']" 1] by simp_all

lemma example_rows:
  "out_row (cot_of (Finite 5)) (ops_of (Some Map.empty))
     \<lparr>g_produto = ''A'', total_stems = 100, subtotal_usd = Finite 50\<rparr> 100 = Inr row_A"
  "out_row (cot_of (Finite 5)) (ops_of (Some Map.empty))
     \<lparr>g_produto = ''B'', total_stems = 0, subtotal_usd = Finite 0\<rparr> 0 = Inr row_B"
  by code_simp+

text \<open>
  Claim C1. For \<open>items = [{product: A, stems: 100, value_usd: 50.00}]\<close>,
  \<open>catalog = [A, B]\<close>, exchange rate 5.0 and an empty cost-override map, the result is
  exactly two rows in order: row \<open>A\<close> with 100 stems, subtotal 50.00, converted price
  250.00, operational cost 0.0 and total per stem 2.5000, and row \<open>B\<close> with 0 stems and
  0.0 in every other derived field. This holds whatever key sort pandas applies, and
  whatever the item's rate and source file are.
\<close>

theorem finalize_table_example:
  assumes "sorts_by_key sort_values"
  shows "finalize_table sort_values [item_A r f] (Finite 5) [''A'', ''B''] (Some Map.empty) =
           Inr [row_A, row_B]"
proof -
  let ?g = "with_missing (groupby_sum [item_A r f]) [''A'', ''B'']"
  let ?k = "\<lambda>r. ord_key [''A'', ''B''] (g_produto r)"
  have "map ?k ?g = [0, 1]" by (simp add: example_groups example_keys)
  then have "sorted (map ?k ?g)" "distinct (map ?k ?g)" by simp_all
  with assms have "sort_values ?k ?g = ?g" by (rule sorts_by_key_id)
  then show ?thesis
    by (simp add: finalize_table_def Let_def example_groups example_dtype example_rows
        astype_int_def and_then_def)
qed

lemma example_table:
  "finalize_table sort_key [item_A (Finite (1 / 2)) ''invoice.json''] (Finite 5) [''A'', ''B'']
     (Some Map.empty) = Inr [row_A, row_B]"
  using sorts_by_key_sort_key by (rule finalize_table_example)

theorem finalize_table_example_witness:
  "sorts_by_key sort_key \<and>
   finalize_table sort_key [item_A (Finite (1 / 2)) ''invoice.json''] (Finite 5) [''A'', ''B'']
     (Some Map.empty) = Inr [row_A, row_B]"
  using finalize_table_example[OF sorts_by_key_sort_key] sorts_by_key_sort_key by simp

text \<open>The coverage theorem (claim C2) at the worked example: row \<open>B\<close> is synthesized.\<close>

theorem catalog_coverage_witness:
  "sorts_by_key sort_key \<and> distinct [''A'', ''B''] \<and> ''B'' \<in> set [''A'', ''B''] \<and>
   ''B'' \<notin> product ` set [item_A (Finite (1 / 2)) ''invoice.json''] \<and>
   finalize_table sort_key [item_A (Finite (1 / 2)) ''invoice.json''] (Finite 5) [''A'', ''B'']
     (Some Map.empty) = Inr [row_A, row_B] \<and>
   length (filter (\<lambda>r. produto r = ''B'') [row_A, row_B]) = 1 \<and>
   produto row_B = ''B'' \<and> num_hastes row_B = 0 \<and> subtotal_invoice row_B = Finite 0"
proof -
  have d: "distinct [''A'', ''B'']" and m: "''B'' \<in> set [''A'', ''B'']" by simp_all
  have n: "''B'' \<notin> product ` set [item_A (Finite (1 / 2)) ''invoice.json'']"
    by (simp add: item_A_def)
  have b: "produto row_B = ''B''" by (simp add: row_B_def)
  from catalog_coverage[OF sorts_by_key_sort_key d example_table m] n b
  have "length (filter (\<lambda>r. produto r = ''B'') [row_A, row_B]) = 1 \<and>
        num_hastes row_B = 0 \<and> subtotal_invoice row_B = Finite 0"
    by simp
  then show ?thesis using sorts_by_key_sort_key example_table d m n b by simp
qed

subsection \<open>The guard on the division\<close>

lemma float_of_int_exn: "float_of_int n = Inl e \<Longrightarrow> e = OverflowError"
  by (simp add: float_of_int_def split: pyfloat.splits)

lemma py_round_exn: "py_round d x = Inl e \<Longrightarrow> e = OverflowError"
  by (simp add: py_round_def split: pyfloat.splits)

lemma total_of_exn: "total_of p c n = Inl e \<Longrightarrow> e = OverflowError"
  by (auto simp: total_of_def py_truediv_def and_then_Inl
      dest: float_of_int_exn py_round_exn split: if_splits)

lemma total_of_nonpos: "n \<le> 0 \<Longrightarrow> total_of p c n = Inr (Finite 0)"
  by (simp add: total_of_def)

lemma out_row_exn: "out_row ct ops r n = Inl e \<Longrightarrow> e = OverflowError"
  by (auto simp: out_row_def Let_def and_then_Inl dest: total_of_exn)

lemma astype_int_exn: "astype_int d v = Inl e \<Longrightarrow> e = OverflowError"
  by (cases d) (simp_all add: astype_int_def split: pyfloat.splits if_splits)

lemma finalize_table_exn:
  assumes "finalize_table srt items c produtos ops = Inl e"
  shows "e = OverflowError"
proof -
  let ?g = "srt (\<lambda>r. ord_key produtos (g_produto r)) (with_missing (groupby_sum items) produtos)"
  let ?a = "map (\<lambda>r. astype_int (stems_dtype items produtos) (total_stems r)) ?g"
  from assms consider "collect ?a = Inl e"
    | ns where "collect (map (\<lambda>(r, n). out_row (cot_of c) (ops_of ops) r n) (zip ?g ns)) = Inl e"
    by (auto simp: finalize_table_def Let_def and_then_Inl)
  then show ?thesis
  proof cases
    case 1
    then have "Inl e \<in> set ?a" by (rule collect_Inl)
    then show ?thesis by (auto dest: astype_int_exn[OF sym])
  next
    case 2
    then have "Inl e \<in> set (map (\<lambda>(r, n). out_row (cot_of c) (ops_of ops) r n) (zip ?g ns))"
      by (rule collect_Inl)
    then show ?thesis by (auto dest: out_row_exn[OF sym])
  qed
qed

lemma out_member:
  assumes "finalize_table srt items c produtos ops = Inr out" "fr \<in> set out"
  shows "\<exists>r. out_row (cot_of c) (ops_of ops) r (num_hastes fr) = Inr fr"
proof -
  from assms(2) obtain i where "i < length out" "out ! i = fr" by (auto simp: in_set_conv_nth)
  with finalize_table_Inr[OF assms(1)] show ?thesis
    by (auto simp: list_all2_conv_all_nth)
qed

text \<open>
  Claim C7. In every row of the returned table with \<^verbatim>\<open>total_stems = 0\<close> the total
  per stem is 0.0, whatever the converted price and the operational cost are, and the
  division is never evaluated with a zero divisor: the function never raises
  \<^verbatim>\<open>ZeroDivisionError\<close>, which is what Python's division does on a zero divisor.
\<close>

theorem zero_stems_total:
  "finalize_table sort_values items cotacao produtos ops_costs_map \<noteq> Inl ZeroDivisionError \<and>
   (\<forall>out. finalize_table sort_values items cotacao produtos ops_costs_map = Inr out \<longrightarrow>
      (\<forall>r \<in> set out. num_hastes r = 0 \<longrightarrow> total r = Finite 0))"
proof (intro conjI allI impI ballI)
  show "finalize_table sort_values items cotacao produtos ops_costs_map \<noteq> Inl ZeroDivisionError"
    using finalize_table_exn[of sort_values items cotacao produtos ops_costs_map ZeroDivisionError]
    by auto
next
  fix out r
  assume out: "finalize_table sort_values items cotacao produtos ops_costs_map = Inr out"
    and r: "r \<in> set out" and z: "num_hastes r = 0"
  from out_member[OF out r] obtain g where
    "out_row (cot_of cotacao) (ops_of ops_costs_map) g (num_hastes r) = Inr r" by blast
  then have "total_of (preco r) (custos_operacao r) (num_hastes r) = Inr (total r)"
    by (simp add: out_row_Inr)
  with z show "total r = Finite 0" by (simp add: total_of_nonpos)
qed

theorem zero_stems_total_witness:
  "finalize_table sort_key [item_A (Finite (1 / 2)) ''invoice.json''] (Finite 5) [''A'', ''B'']
     (Some Map.empty) = Inr [row_A, row_B] \<and> row_B \<in> set [row_A, row_B] \<and>
   num_hastes row_B = 0 \<and> total row_B = Finite 0"
proof -
  have z: "num_hastes row_B = 0" by (simp add: row_B_def)
  from zero_stems_total[of sort_key "[item_A (Finite (1 / 2)) ''invoice.json'']" "Finite 5"
      "[''A'', ''B'']" "Some Map.empty"]
  have "total row_B = Finite 0" using z by (simp add: example_table)
  then show ?thesis using z example_table by simp
qed

subsection \<open>Changing the exchange rate\<close>

lemma example_table_6:
  "finalize_table sort_key [item_A (Finite (1 / 2)) ''invoice.json''] (Finite 6) [''A'', ''B'']
     (Some Map.empty) =
   Inr [row_A\<lparr>cotacao_dolar := Finite 6, preco := Finite 300, total := Finite 3\<rparr>,
        row_B\<lparr>cotacao_dolar := Finite 6\<rparr>]"
  by code_simp

text \<open>
  Claim C6, as stated, fails: in the worked example the row \<open>B\<close> has converted price 0.0
  and total per stem 0.0 under the rate 5.0 and under the rate 6.0 alike, so the two
  fields do not change in every row when only the rate changes.
\<close>

theorem rate_change_counterexample:
  "finalize_table sort_key [item_A (Finite (1 / 2)) ''invoice.json''] (Finite 5) [''A'', ''B'']
     (Some Map.empty) = Inr [row_A, row_B] \<and>
   finalize_table sort_key [item_A (Finite (1 / 2)) ''invoice.json''] (Finite 6) [''A'', ''B'']
     (Some Map.empty) =
     Inr [row_A\<lparr>cotacao_dolar := Finite 6, preco := Finite 300, total := Finite 3\<rparr>,
          row_B\<lparr>cotacao_dolar := Finite 6\<rparr>] \<and>
   Finite 5 \<noteq> Finite 6 \<and>
   preco (row_B\<lparr>cotacao_dolar := Finite 6\<rparr>) = preco row_B \<and>
   total (row_B\<lparr>cotacao_dolar := Finite 6\<rparr>) = total row_B"
  by (simp add: example_table example_table_6)

lemma out_columns:
  assumes "finalize_table srt items c produtos ops = Inr out"
  shows "map (\<lambda>r. Inr (num_hastes r)) out =
           map (\<lambda>r. astype_int (stems_dtype items produtos) (total_stems r))
             (srt (\<lambda>r. ord_key produtos (g_produto r)) (with_missing (groupby_sum items) produtos))"
    and "map subtotal_invoice out =
           map (\<lambda>r. np_round 2 (subtotal_usd r))
             (srt (\<lambda>r. ord_key produtos (g_produto r)) (with_missing (groupby_sum items) produtos))"
    and "map custos_operacao out =
           map (\<lambda>r. ops_cost (ops_of ops) (g_produto r))
             (srt (\<lambda>r. ord_key produtos (g_produto r)) (with_missing (groupby_sum items) produtos))"
  using finalize_table_Inr[OF assms]
  by (simp_all add: list_all2_conv_all_nth list_eq_iff_nth_eq out_row_Inr)

text \<open>
  Claim C6, amended. For a fixed item list, catalog and cost-override map and any two
  exchange rates, the two tables have the same rows in the same order, equal in product,
  total stems, subtotal and operational cost. The converted price and the total per stem
  are computed again from the other rate and need not change.
\<close>

theorem rate_change_frame:
  assumes o1: "finalize_table sort_values items c1 produtos ops_costs_map = Inr out1"
      and o2: "finalize_table sort_values items c2 produtos ops_costs_map = Inr out2"
  shows "map produto out1 = map produto out2 \<and>
         map num_hastes out1 = map num_hastes out2 \<and>
         map subtotal_invoice out1 = map subtotal_invoice out2 \<and>
         map custos_operacao out1 = map custos_operacao out2"
proof -
  have "map produto out1 = map produto out2"
    using produto_out_list[OF o1] produto_out_list[OF o2] by simp
  moreover have "map (\<lambda>r. Inr (num_hastes r) :: exn + int) out1 = map (\<lambda>r. Inr (num_hastes r)) out2"
    using out_columns(1)[OF o1] out_columns(1)[OF o2] by simp
  then have "map projr (map (\<lambda>r. Inr (num_hastes r) :: exn + int) out1) =
             map projr (map (\<lambda>r. Inr (num_hastes r)) out2)"
    by simp
  then have "map num_hastes out1 = map num_hastes out2"
    by (simp add: comp_def)
  moreover have "map subtotal_invoice out1 = map subtotal_invoice out2"
    using out_columns(2)[OF o1] out_columns(2)[OF o2] by simp
  moreover have "map custos_operacao out1 = map custos_operacao out2"
    using out_columns(3)[OF o1] out_columns(3)[OF o2] by simp
  ultimately show ?thesis by blast
qed

theorem rate_change_frame_witness:
  "finalize_table sort_key [item_A (Finite (1 / 2)) ''invoice.json''] (Finite 5) [''A'', ''B'']
     (Some Map.empty) = Inr [row_A, row_B] \<and>
   finalize_table sort_key [item_A (Finite (1 / 2)) ''invoice.json''] (Finite 6) [''A'', ''B'']
     (Some Map.empty) =
     Inr [row_A\<lparr>cotacao_dolar := Finite 6, preco := Finite 300, total := Finite 3\<rparr>,
          row_B\<lparr>cotacao_dolar := Finite 6\<rparr>] \<and>
   map num_hastes [row_A, row_B] =
   map num_hastes [row_A\<lparr>cotacao_dolar := Finite 6, preco := Finite 300, total := Finite 3\<rparr>,
          row_B\<lparr>cotacao_dolar := Finite 6\<rparr>] \<and>
   map subtotal_invoice [row_A, row_B] =
   map subtotal_invoice [row_A\<lparr>cotacao_dolar := Finite 6, preco := Finite 300, total := Finite 3\<rparr>,
          row_B\<lparr>cotacao_dolar := Finite 6\<rparr>]"
  using rate_change_frame[OF example_table example_table_6] example_table example_table_6
  by simp

subsection \<open>Row order\<close>

lemma dropWhile_sorted_key:
  "sorted (map K ps) \<Longrightarrow> x \<in> set (dropWhile (\<lambda>p. K p < c) ps) \<Longrightarrow> \<not> K x < (c::int)"
  by (induction ps) (auto split: if_splits)

lemma takeWhile_sorted_key:
  "sorted (map K ps) \<Longrightarrow> takeWhile (\<lambda>p. K p < (c::int)) ps = filter (\<lambda>p. K p < c) ps"
  by (rule takeWhile_eq_filter) (rule dropWhile_sorted_key)

lemma ord_key_less_iff:
  assumes "length produtos \<le> 1000000"
  shows "ord_key produtos p < 1000000 \<longleftrightarrow> p \<in> set produtos"
proof
  assume "ord_key produtos p < 1000000"
  then show "p \<in> set produtos" using ord_key_notin[of p produtos] by force
next
  assume "p \<in> set produtos"
  from ord_key_in[OF this] assms show "ord_key produtos p < 1000000" by linarith
qed

lemma ord_key_index:
  assumes "p \<in> set produtos"
  shows "nat (ord_key produtos p) < length produtos \<and> produtos ! nat (ord_key produtos p) = p"
proof -
  from assms obtain i where "order produtos p = Some i"
    using order_None[of produtos p] by (cases "order produtos p") auto
  then show ?thesis using order_Some[of produtos p i] by (simp add: ord_key_def)
qed

lemma inj_on_ord_key: "distinct produtos \<Longrightarrow> inj_on (ord_key produtos) (set produtos)"
proof (rule inj_onI)
  fix p q assume d: "distinct produtos" and p: "p \<in> set produtos" and q: "q \<in> set produtos"
    and e: "ord_key produtos p = ord_key produtos q"
  from p q obtain i j where i: "i < length produtos" "produtos ! i = p"
    and j: "j < length produtos" "produtos ! j = q"
    by (auto simp: in_set_conv_nth)
  from e ord_key_nth[OF d i(1)] ord_key_nth[OF d j(1)] i(2) j(2) have "i = j" by simp
  with i j show "p = q" by simp
qed

lemma map_ord_key_catalog:
  assumes "distinct produtos"
  shows "map (ord_key produtos) produtos = map int [0..<length produtos]"
  by (rule nth_equalityI) (simp_all add: ord_key_nth[OF assms])

lemma zip_map_same: "zip xs (map f xs) = map (\<lambda>x. (x, f x)) xs"
  by (induction xs) simp_all

text \<open>
  When the stems are held in an \<^verbatim>\<open>int64\<close> column and every row can be computed,
  a table is returned.
\<close>

lemma finalize_table_Int64:
  assumes d: "stems_dtype items produtos = Int64"
      and rows: "\<And>r. r \<in> set (with_missing (groupby_sum items) produtos) \<Longrightarrow>
                  \<exists>fr. out_row (cot_of c) (ops_of ops) r (total_stems r) = Inr fr"
      and srt: "sorts_by_key srt"
  shows "\<exists>out. finalize_table srt items c produtos ops = Inr out"
proof -
  let ?g = "srt (\<lambda>r. ord_key produtos (g_produto r)) (with_missing (groupby_sum items) produtos)"
  let ?h = "\<lambda>r. projr (out_row (cot_of c) (ops_of ops) r (total_stems r))"
  have a: "collect (map (\<lambda>r. astype_int Int64 (total_stems r)) ?g) = Inr (map total_stems ?g)"
    by (simp add: collect_Inr astype_int_def)
  have "\<And>r. r \<in> set ?g \<Longrightarrow> out_row (cot_of c) (ops_of ops) r (total_stems r) = Inr (?h r)"
    using rows sorts_by_key_set[OF srt] by fastforce
  then have "map (\<lambda>(r, n). out_row (cot_of c) (ops_of ops) r n) (zip ?g (map total_stems ?g)) =
             map Inr (map ?h ?g)"
    by (simp add: zip_map_same)
  then have b: "collect (map (\<lambda>(r, n). out_row (cot_of c) (ops_of ops) r n)
                  (zip ?g (map total_stems ?g))) = Inr (map ?h ?g)"
    by (simp only: collect_Inr)
  have "finalize_table srt items c produtos ops = Inr (map ?h ?g)"
    by (simp add: finalize_table_def Let_def d a b and_then_def)
  then show ?thesis by blast
qed

lemma out_row_zero:
  "out_row ct ops \<lparr>g_produto = p, total_stems = 0, subtotal_usd = Finite 0\<rparr> 0 =
     Inr \<lparr>produto = p, num_hastes = 0, subtotal_invoice = Finite 0, cotacao_dolar = ct,
          preco = np_round 2 (fmul (Finite 0) ct), custos_operacao = ops_cost ops p,
          total = Finite 0\<rparr>"
  by (simp add: out_row_def Let_def total_of_def and_then_def)

lemma stray_out_row:
  "out_row (cot_of (Finite 5)) (ops_of (Some Map.empty))
     \<lparr>g_produto = p, total_stems = 10, subtotal_usd = Finite 10\<rparr> 10 = Inr (stray_row p)"
proof -
  have "total_of (np_round 2 (fmul (np_round 2 (Finite 10)) (cot_of (Finite 5))))
          (ops_cost (ops_of (Some Map.empty)) p) 10 = Inr (Finite 5)"
       "np_round 2 (Finite 10) = Finite 10"
       "np_round 2 (fmul (Finite 10) (cot_of (Finite 5))) = Finite 50"
       "cot_of (Finite 5) = Finite 5"
       "ops_cost (ops_of (Some Map.empty)) p = Finite 0"
    by code_simp+
  then show ?thesis
    by (simp add: out_row_Inr stray_row_def)
qed

lemma stray_groups:
  "groupby_sum [stray_item p] = [\<lparr>g_produto = p, total_stems = 10, subtotal_usd = Finite 10\<rparr>]"
proof -
  have k: "kahan_sum [Finite 10] = Finite 10" by code_simp
  have s: "stems_sum (infer_dtype [10]) [10] = 10" by code_simp
  show ?thesis by (simp add: groupby_sum_def stray_item_def k s)
qed

lemma stray_returns:
  assumes "sorts_by_key srt"
  shows "\<exists>out. finalize_table srt [stray_item p] (Finite 5) produtos (Some Map.empty) = Inr out"
proof (rule finalize_table_Int64[OF _ _ assms])
  show "stems_dtype [stray_item p] produtos = Int64"
    by (simp add: stems_dtype_def stray_item_def infer_dtype_def in_int64_def)
next
  fix r assume "r \<in> set (with_missing (groupby_sum [stray_item p]) produtos)"
  then consider "r = \<lparr>g_produto = p, total_stems = 10, subtotal_usd = Finite 10\<rparr>"
    | q where "r = \<lparr>g_produto = q, total_stems = 0, subtotal_usd = Finite 0\<rparr>"
    by (auto simp: with_missing_def stray_groups)
  then show "\<exists>fr. out_row (cot_of (Finite 5)) (ops_of (Some Map.empty)) r (total_stems r) = Inr fr"
  proof cases
    case 1
    then show ?thesis using stray_out_row[of p] by simp
  next
    case 2
    then show ?thesis using out_row_zero by simp
  qed
qed

lemma stray_table:
  "finalize_table sort_key
     [stray_item ''Z'', item_A (Finite (1 / 2)) ''invoice.json'', stray_item ''Y'']
     (Finite 5) [''A'', ''B''] (Some Map.empty) =
   Inr [row_A, row_B, stray_row ''Y'', stray_row ''Z'']"
  by code_simp

lemma length_big_catalog: "length big_catalog = 1000002"
  unfolding big_catalog_def by (simp only: length_map length_upt)

lemma nth_big_catalog: "i < 1000002 \<Longrightarrow> big_catalog ! i = catalog_name i"
  unfolding big_catalog_def by (simp only: nth_map length_upt nth_upt) simp

lemma inj_catalog_name: "inj catalog_name"
proof (rule injI)
  fix i j assume "catalog_name i = catalog_name j"
  then have "length (catalog_name i) = length (catalog_name j)" by simp
  then show "i = j" by (simp add: catalog_name_def)
qed

lemma distinct_big_catalog: "distinct big_catalog"
  unfolding big_catalog_def distinct_map
  using inj_catalog_name by (auto intro: inj_on_subset simp only: distinct_upt)

lemma Z_notin_big_catalog: "''Z'' \<notin> set big_catalog"
  unfolding big_catalog_def by (auto simp: catalog_name_def Cons_replicate_eq simp del: replicate_Suc)

lemma sorted_le_last: "sorted xs \<Longrightarrow> x \<in> set xs \<Longrightarrow> x \<le> last (xs :: int list)"
proof -
  assume s: "sorted xs" and x: "x \<in> set xs"
  then have ne: "xs \<noteq> []" by auto
  then have e: "xs = butlast xs @ [last xs]" by simp
  from s have "sorted (butlast xs @ [last xs])" using e by simp
  then have "\<forall>y \<in> set (butlast xs). y \<le> last xs" unfolding sorted_append by simp
  moreover from x e have "x \<in> set (butlast xs) \<or> x = last xs"
    by (metis Un_iff empty_iff insert_iff list.simps(15) set_append empty_set)
  ultimately show ?thesis by auto
qed

lemma sentinel_collision:
  assumes srt: "sorts_by_key srt"
      and out: "finalize_table srt [stray_item ''Z''] c big_catalog ops = Inr out"
  shows "last (map produto out) = catalog_name 1000001 \<and> ''Z'' \<in> set (butlast (map produto out))"
proof -
  let ?K = "ord_key big_catalog"
  let ?g = "with_missing (groupby_sum [stray_item ''Z'']) big_catalog"
  let ?k = "\<lambda>r. ?K (g_produto r)"
  let ?q = "catalog_name 1000001"
  define ps where "ps = map produto out"
  have pl: "ps = map g_produto (srt ?k ?g)" unfolding ps_def using out by (rule produto_out_list)
  have "sorted (map ?k (srt ?k ?g))" using srt by (rule sorts_by_key_sorted)
  then have sK: "sorted (map ?K ps)" unfolding pl by (simp add: comp_def)
  have "mset ps = mset (map g_produto ?g)" unfolding ps_def using srt out by (rule produto_out)
  then have "set ps = set (map g_produto ?g)" by (metis set_mset_mset)
  then have sps: "set ps = insert ''Z'' (set big_catalog)"
    unfolding set_with_missing by (simp add: stray_item_def)
  have q: "?q \<in> set big_catalog"
    using nth_big_catalog[of 1000001] nth_mem[of 1000001 big_catalog]
    by (simp add: length_big_catalog)
  have Kq: "?K ?q = 1000001"
    using ord_key_nth[OF distinct_big_catalog, of 1000001] nth_big_catalog[of 1000001]
    by (simp add: length_big_catalog)
  have KZ: "?K ''Z'' = 1000000" using Z_notin_big_catalog by (rule ord_key_notin)
  have ne: "ps \<noteq> []" using sps by auto
  have "?K ?q \<in> set (map ?K ps)" using q sps by simp
  with sK have "?K ?q \<le> last (map ?K ps)" by (rule sorted_le_last)
  then have big: "1000001 \<le> ?K (last ps)" using ne Kq by (simp add: last_map)
  have "last ps \<in> set ps" using ne by simp
  with sps big KZ have "last ps \<in> set big_catalog" by auto
  then obtain i where i: "i < 1000002" "last ps = big_catalog ! i"
    by (auto simp: in_set_conv_nth length_big_catalog)
  then have "?K (last ps) = int i"
    using ord_key_nth[OF distinct_big_catalog, of i] by (simp add: length_big_catalog)
  with big i(1) have "i = 1000001" by simp
  with i have l: "last ps = ?q" by (simp add: nth_big_catalog)
  have "''Z'' \<in> set (butlast ps @ [last ps])" using ne sps by simp
  moreover have "''Z'' \<noteq> last ps" using l q Z_notin_big_catalog by auto
  ultimately have "''Z'' \<in> set (butlast ps)" by simp
  with l show ?thesis unfolding ps_def by simp
qed

lemma sorts_by_key_unstable: "sorts_by_key unstable"
proof -
  have "sorted (map k (unstable k xs))" for k :: "group_row \<Rightarrow> int" and xs
  proof -
    have "sorted (map (\<lambda>x. - k x) (sort_key (\<lambda>x. - k x) xs))" by simp
    then have "sorted_wrt (\<lambda>a b. k b \<le> k a) (sort_key (\<lambda>x. - k x) xs)"
      by (simp add: sorted_wrt_map)
    then have "sorted_wrt (\<lambda>a b. k a \<le> k b) (rev (sort_key (\<lambda>x. - k x) xs))"
      by (simp add: sorted_wrt_rev)
    then show ?thesis by (simp add: unstable_def sorted_wrt_map)
  qed
  then show ?thesis by (simp add: sorts_by_key_def unstable_def)
qed

lemma unstable_table:
  "finalize_table unstable [stray_item ''C'', stray_item ''D''] (Finite 5) [''A'', ''B'']
     (Some Map.empty) =
   Inr [row_B\<lparr>produto := ''A''\<rparr>, row_B, stray_row ''D'', stray_row ''C'']"
  by code_simp

lemma stable_table:
  "finalize_table sort_key [stray_item ''C'', stray_item ''D''] (Finite 5) [''A'', ''B'']
     (Some Map.empty) =
   Inr [row_B\<lparr>produto := ''A''\<rparr>, row_B, stray_row ''C'', stray_row ''D'']"
  by code_simp

text \<open>
  Claim C3, as stated, fails in two ways. First, for a catalog with more than 1,000,000
  names the sentinel \<^verbatim>\<open>1_000_000\<close> is not larger than every catalog index: with the
  catalog of 1,000,002 names and one item of the product \<open>Z\<close>, which is not in the
  catalog, the last row of the table is a catalog row and the row of \<open>Z\<close> comes before
  it. Second, the sort is not stable, so the products outside the catalog need not keep
  the order of the grouping: for items of the products \<open>C\<close> and \<open>D\<close> and the catalog
  \<open>[A, B]\<close> the grouping has \<open>C\<close> before \<open>D\<close>, and under a sort by key that reverses
  ties the table has \<open>D\<close> before \<open>C\<close>.
\<close>

theorem catalog_order_counterexample:
  "length big_catalog = 1000002 \<and>
   ''Z'' \<notin> set big_catalog \<and>
   catalog_name 1000001 \<in> set big_catalog \<and>
   \<not> isl (finalize_table sort_key [stray_item ''Z''] (Finite 5) big_catalog (Some Map.empty)) \<and>
   last (map produto (projr (finalize_table sort_key [stray_item ''Z''] (Finite 5)
           big_catalog (Some Map.empty)))) = catalog_name 1000001 \<and>
   ''Z'' \<in> set (butlast (map produto (projr (finalize_table sort_key [stray_item ''Z''] (Finite 5)
           big_catalog (Some Map.empty))))) \<and>
   sorts_by_key unstable \<and>
   map g_produto (groupby_sum [stray_item ''C'', stray_item ''D'']) = [''C'', ''D''] \<and>
   finalize_table unstable [stray_item ''C'', stray_item ''D''] (Finite 5) [''A'', ''B'']
     (Some Map.empty) =
     Inr [row_B\<lparr>produto := ''A''\<rparr>, row_B, stray_row ''D'', stray_row ''C'']"
proof -
  obtain out where
    out: "finalize_table sort_key [stray_item ''Z''] (Finite 5) big_catalog (Some Map.empty) = Inr out"
    using stray_returns[OF sorts_by_key_sort_key] by blast
  have c: "catalog_name 1000001 \<in> set big_catalog"
    using nth_big_catalog[of 1000001] nth_mem[of 1000001 big_catalog]
    by (simp add: length_big_catalog)
  have g: "map g_produto (groupby_sum [stray_item ''C'', stray_item ''D'']) = [''C'', ''D'']"
    by code_simp
  show ?thesis
    using sentinel_collision[OF sorts_by_key_sort_key out] out c g
      length_big_catalog Z_notin_big_catalog sorts_by_key_unstable unstable_table
    by simp
qed

text \<open>
  Claim C3, amended. For a catalog of at most 1,000,000 names the rows are ordered by the
  product's index in the catalog: they are in ascending order of the ordering key, which
  for a product of the catalog is an index at which the catalog holds it (so that for a
  catalog without duplicates the first rows are exactly the catalog, in its order); and
  every row of a product outside the catalog comes after every catalog row. Nothing is
  said of the order of the products outside the catalog among themselves.
\<close>

theorem catalog_order:
  assumes srt: "sorts_by_key sort_values"
      and len: "length produtos \<le> 1000000"
      and out: "finalize_table sort_values items cotacao produtos ops_costs_map = Inr out"
  shows "sorted (map (\<lambda>r. ord_key produtos (produto r)) out) \<and>
         (\<forall>r \<in> set out. produto r \<in> set produtos \<longrightarrow>
            nat (ord_key produtos (produto r)) < length produtos \<and>
            produtos ! nat (ord_key produtos (produto r)) = produto r) \<and>
         (\<forall>i < length out. \<forall>j < length out.
            produto (out ! i) \<in> set produtos \<and> produto (out ! j) \<notin> set produtos \<longrightarrow> i < j) \<and>
         (distinct produtos \<longrightarrow> take (length produtos) (map produto out) = produtos)"
proof -
  let ?g = "with_missing (groupby_sum items) produtos"
  let ?k = "\<lambda>r. ord_key produtos (g_produto r)"
  let ?K = "ord_key produtos"
  let ?ys = "sort_values ?k ?g"
  let ?ps = "map produto out"
  have ps: "?ps = map g_produto ?ys" using out by (rule produto_out_list)
  have "sorted (map ?k ?ys)" using srt by (rule sorts_by_key_sorted)
  then have sK: "sorted (map ?K ?ps)" unfolding ps by (simp add: comp_def)
  then have a: "sorted (map (\<lambda>r. ord_key produtos (produto r)) out)" by (simp add: comp_def)
  have x: "\<forall>r \<in> set out. produto r \<in> set produtos \<longrightarrow>
            nat (ord_key produtos (produto r)) < length produtos \<and>
            produtos ! nat (ord_key produtos (produto r)) = produto r"
    using ord_key_index by blast
  have b: "\<forall>i < length out. \<forall>j < length out.
            produto (out ! i) \<in> set produtos \<and> produto (out ! j) \<notin> set produtos \<longrightarrow> i < j"
  proof (intro allI impI)
    fix i j assume i: "i < length out" and j: "j < length out"
      and ij: "produto (out ! i) \<in> set produtos \<and> produto (out ! j) \<notin> set produtos"
    show "i < j"
    proof (rule ccontr)
      assume "\<not> i < j"
      then have "j \<le> i" by simp
      with a i have "map (\<lambda>r. ord_key produtos (produto r)) out ! j
                  \<le> map (\<lambda>r. ord_key produtos (produto r)) out ! i"
        by (intro sorted_nth_mono) simp_all
      then have "?K (produto (out ! j)) \<le> ?K (produto (out ! i))" using i j by simp
      moreover have "?K (produto (out ! j)) = 1000000" using ij by (simp add: ord_key_notin)
      moreover have "?K (produto (out ! i)) < 1000000" using ij ord_key_less_iff[OF len] by simp
      ultimately show False by simp
    qed
  qed
  have c: "distinct produtos \<longrightarrow> take (length produtos) ?ps = produtos"
  proof
    assume d: "distinct produtos"
    have m: "mset ?ps = mset (map g_produto ?g)" using srt out by (rule produto_out)
    have "distinct (map g_produto ?g)" using d by (rule distinct_with_missing)
    then have dps: "distinct ?ps" using m by (metis mset_eq_imp_distinct_iff)
    have "set ?ps = set (map g_produto ?g)" using m by (metis set_mset_mset)
    then have sps: "set ?ps = product ` set items \<union> set produtos" unfolding set_with_missing .
    let ?P = "\<lambda>p. ?K p < 1000000"
    let ?cs = "filter ?P ?ps"
    have tw: "takeWhile ?P ?ps = ?cs" using sK by (rule takeWhile_sorted_key)
    have Pcat: "\<And>p. ?P p \<longleftrightarrow> p \<in> set produtos" using ord_key_less_iff[OF len] .
    have scs: "set ?cs = set produtos" using sps Pcat by auto
    have inj: "inj_on ?K (set ?cs \<union> set produtos)" unfolding scs using inj_on_ord_key[OF d] by simp
    have "?cs = produtos"
    proof (rule map_sorted_distinct_set_unique[OF inj _ _ _ _ scs])
      show "sorted (map ?K ?cs)" using sK by (rule sorted_filter)
      have "distinct ?cs" using dps by (rule distinct_filter)
      moreover have "inj_on ?K (set ?cs)" unfolding scs by (rule inj_on_ord_key[OF d])
      ultimately show "distinct (map ?K ?cs)" unfolding distinct_map by blast
      show "sorted (map ?K produtos)" unfolding map_ord_key_catalog[OF d]
        by (simp add: sorted_map strict_sorted_iff[symmetric] sorted_wrt_iff_nth_less)
      show "distinct (map ?K produtos)" unfolding map_ord_key_catalog[OF d]
        by (simp add: distinct_map inj_on_def)
    qed
    with tw have t: "takeWhile ?P ?ps = produtos" by simp
    have "?ps = takeWhile ?P ?ps @ dropWhile ?P ?ps" by simp
    then have "take (length produtos) ?ps = take (length produtos) (produtos @ dropWhile ?P ?ps)"
      unfolding t by simp
    then show "take (length produtos) ?ps = produtos" by simp
  qed
  from a x b c show ?thesis by blast
qed

theorem catalog_order_witness:
  "sorts_by_key sort_key \<and> length [''A'', ''B''] \<le> 1000000 \<and> distinct [''A'', ''B''] \<and>
   finalize_table sort_key
     [stray_item ''Z'', item_A (Finite (1 / 2)) ''invoice.json'', stray_item ''Y'']
     (Finite 5) [''A'', ''B''] (Some Map.empty) =
     Inr [row_A, row_B, stray_row ''Y'', stray_row ''Z''] \<and>
   sorted (map (\<lambda>r. ord_key [''A'', ''B''] (produto r))
     [row_A, row_B, stray_row ''Y'', stray_row ''Z'']) \<and>
   take 2 (map produto [row_A, row_B, stray_row ''Y'', stray_row ''Z'']) = [''A'', ''B'']"
proof -
  let ?rows = "[row_A, row_B, stray_row ''Y'', stray_row ''Z'']"
  have l: "length [''A'', ''B''] \<le> 1000000" and d: "distinct [''A'', ''B'']" by simp_all
  note co = catalog_order[OF sorts_by_key_sort_key l stray_table]
  from co have s: "sorted (map (\<lambda>r. ord_key [''A'', ''B''] (produto r)) ?rows)" by blast
  from co d have "take (length [''A'', ''B'']) (map produto ?rows) = [''A'', ''B'']" by blast
  then have t: "take 2 (map produto ?rows) = [''A'', ''B'']" by simp
  from s t l d show ?thesis using sorts_by_key_sort_key stray_table by blast
qed

subsection \<open>Rounding\<close>

lemma rint_near: "\<bar>x - of_int (rint x)\<bar> \<le> 1 / 2"
proof -
  have "of_int \<lfloor>x\<rfloor> \<le> x" "x < of_int \<lfloor>x\<rfloor> + 1" by linarith+
  then show ?thesis by (auto simp: rint_def Let_def)
qed

lemma rint_tie: "\<bar>x - of_int (rint x)\<bar> = 1 / 2 \<Longrightarrow> even (rint x)"
proof -
  have "of_int \<lfloor>x\<rfloor> \<le> x" "x < of_int \<lfloor>x\<rfloor> + 1" by linarith+
  then show "\<bar>x - of_int (rint x)\<bar> = 1 / 2 \<Longrightarrow> even (rint x)"
    by (auto simp: rint_def Let_def split: if_splits)
qed



lemma rint_unique:
  assumes "nearest_even x n"
  shows "rint x = n"
proof -
  let ?m = "rint x"
  from assms have a: "\<bar>x - of_int n\<bar> \<le> 1 / 2" and e: "\<bar>x - of_int n\<bar> = 1 / 2 \<longrightarrow> even n"
    by (simp_all add: nearest_even_def)
  have m: "\<bar>x - of_int ?m\<bar> \<le> 1 / 2" by (rule rint_near)
  have "\<bar>(of_int n :: rat) - of_int ?m\<bar> \<le> 1" using a m by linarith
  then have "\<bar>of_int (n - ?m) :: rat\<bar> \<le> 1" by simp
  then have d: "\<bar>n - ?m\<bar> \<le> 1" by (metis of_int_abs of_int_le_1_iff)
  show ?thesis
  proof (rule ccontr)
    assume ne: "?m \<noteq> n"
    with d have c: "n = ?m + 1 \<or> n = ?m - 1" by linarith
    then have r: "(of_int n :: rat) = of_int ?m + 1 \<or> (of_int n :: rat) = of_int ?m - 1"
      by auto
    have "\<bar>x - of_int n\<bar> = 1 / 2" using r a m by linarith
    moreover have "\<bar>x - of_int ?m\<bar> = 1 / 2" using r a m by linarith
    ultimately have "even n" "even ?m" using e rint_tie by blast+
    with c show False by auto
  qed
qed

lemma np_round_cases:
  "np_round d x =
     (case fmul x (Finite (10 ^ d)) of Finite t \<Rightarrow> b64 (of_int (rint t) / 10 ^ d) | z \<Rightarrow> z)"
  by (cases "fmul x (Finite (10 ^ d))")
     (simp_all add: np_round_def np_rint_def fdiv_def signed_inf_def)


lemma np_rounded_unique: "np_rounded d x y \<Longrightarrow> y = np_round d x"
  unfolding np_rounded_def np_round_cases
  by (cases "fmul x (Finite (10 ^ d))") (auto dest: rint_unique)


lemma kahan_sum_Nil [simp]: "kahan_sum [] = Finite 0"
  by (simp add: kahan_sum_def)










end
